theory Spec2Isabelle
  imports Main "HOL-Library.Finite_Map" "HOL-Library.Char_ord" "HOL-Library.List_Lexorder"
begin

section \<open>Regular expressions of the predicate library\<close>

text \<open>
  The package compiles two patterns with \<^verbatim>\<open>regexp.MustCompile\<close> and asks
  \<^verbatim>\<open>MatchString\<close> of them. A Go string is a sequence of bytes, here a
  \<^typ>\<open>string\<close>. The patterns are written as terms of the datatype below, one
  constructor or notation function per construct of the pattern text. Both patterns start
  with \<^verbatim>\<open>^\<close> and end with \<^verbatim>\<open>$\<close> and carry no flag, so that
  \<^verbatim>\<open>MatchString\<close> holds exactly when the whole value belongs to the language
  of the pattern between the anchors; capture groups do not change that language.
\<close>

datatype regexp =
  Never
  | Empty
  | OneOf "char list"
  | Cat regexp regexp
  | Alt regexp regexp
  | Star regexp

definition conc :: "string set \<Rightarrow> string set \<Rightarrow> string set" where
  "conc A B = {u @ v | u v. u \<in> A \<and> v \<in> B}"

inductive_set star :: "string set \<Rightarrow> string set" for A :: "string set" where
  star_nil: "[] \<in> star A"
| star_app: "u \<in> A \<Longrightarrow> v \<in> star A \<Longrightarrow> u @ v \<in> star A"

fun lang :: "regexp \<Rightarrow> string set" where
  "lang Never = {}"
| "lang Empty = {[]}"
| "lang (OneOf cs) = {[c] | c. c \<in> set cs}"
| "lang (Cat r s) = conc (lang r) (lang s)"
| "lang (Alt r s) = lang r \<union> lang s"
| "lang (Star r) = star (lang r)"

text \<open>The executable matcher: derivatives of the pattern by the bytes of the value.\<close>

fun nullable :: "regexp \<Rightarrow> bool" where
  "nullable Never = False"
| "nullable Empty = True"
| "nullable (OneOf cs) = False"
| "nullable (Cat r s) = (nullable r \<and> nullable s)"
| "nullable (Alt r s) = (nullable r \<or> nullable s)"
| "nullable (Star r) = True"

fun deriv :: "char \<Rightarrow> regexp \<Rightarrow> regexp" where
  "deriv c Never = Never"
| "deriv c Empty = Never"
| "deriv c (OneOf cs) = (if c \<in> set cs then Empty else Never)"
| "deriv c (Cat r s) =
     (if nullable r then Alt (Cat (deriv c r) s) (deriv c s) else Cat (deriv c r) s)"
| "deriv c (Alt r s) = Alt (deriv c r) (deriv c s)"
| "deriv c (Star r) = Cat (deriv c r) (Star r)"

fun full_match :: "regexp \<Rightarrow> string \<Rightarrow> bool" where
  "full_match r [] = nullable r"
| "full_match r (c # cs) = full_match (deriv c r) cs"

text \<open>
  The notation of the pattern text: \<^verbatim>\<open>r?\<close>, \<^verbatim>\<open>r+\<close>,
  \<^verbatim>\<open>r{n}\<close>, a sequence, a literal byte, and the digit class
  (\<^verbatim>\<open>[0-9]\<close> and \<^verbatim>\<open>\d\<close> are the ten ASCII digits).
\<close>

definition Quest :: "regexp \<Rightarrow> regexp" where
  "Quest r = Alt r Empty"

definition Plus :: "regexp \<Rightarrow> regexp" where
  "Plus r = Cat r (Star r)"

fun Repeat :: "nat \<Rightarrow> regexp \<Rightarrow> regexp" where
  "Repeat 0 r = Empty"
| "Repeat (Suc n) r = Cat r (Repeat n r)"

fun Concat :: "regexp list \<Rightarrow> regexp" where
  "Concat [] = Empty"
| "Concat [r] = r"
| "Concat (r # rs) = Cat r (Concat rs)"

definition Lit :: "char \<Rightarrow> regexp" where
  "Lit c = OneOf [c]"

definition Digit :: regexp where
  "Digit = OneOf ''0123456789''"

text \<open>
  The bullet of the phone pattern is the code point U+25CF, in the source file the three
  bytes E2 97 8F. The matcher of Go reads the value rune by rune; the class
  \<^verbatim>\<open>[-.\<bullet>]\<close> takes one rune, which is a hyphen, a period or these three bytes.
\<close>

definition bullet :: string where
  "bullet = [CHR 0xE2, CHR 0x97, CHR 0x8F]"

definition Separator :: regexp where
  "Separator = Alt (OneOf ''-.'') (Concat (map Lit bullet))"

text \<open>
  \<^verbatim>\<open>^(\-?\d+)(\.\d+)?,(\-?\d+)(\.\d+)?$\<close>
\<close>

definition validCoordinateRegex :: regexp where
  "validCoordinateRegex = Concat
     [Concat [Quest (Lit CHR ''-''), Plus Digit],
      Quest (Concat [Lit CHR ''.'', Plus Digit]),
      Lit CHR '','',
      Concat [Quest (Lit CHR ''-''), Plus Digit],
      Quest (Concat [Lit CHR ''.'', Plus Digit])]"

text \<open>
  \<^verbatim>\<open>^\(?([0-9]{3})\)?\ [-.\<bullet>]?([0-9]{3})[-.\<bullet>]?([0-9]{4})$\<close>:
  after the optional closing parenthesis the pattern has an escaped space, which is a
  literal space with no quantifier.
\<close>

definition validPhoneRegex :: regexp where
  "validPhoneRegex = Concat
     [Quest (Lit CHR ''(''),
      Repeat 3 Digit,
      Quest (Lit CHR '')''),
      Lit CHR '' '',
      Quest Separator,
      Repeat 3 Digit,
      Quest Separator,
      Repeat 4 Digit]"

section \<open>The predicates\<close>

text \<open>
  Each predicate reads only \<^verbatim>\<open>field.String()\<close> of its seven parameters; the
  model takes that string.
\<close>

definition Phone :: "string \<Rightarrow> bool" where
  "Phone field = full_match validPhoneRegex field"

definition Coordinates :: "string \<Rightarrow> bool" where
  "Coordinates field = (if \<not> full_match validCoordinateRegex field then False else True)"

text \<open>
  \<^verbatim>\<open>time.LoadLocation\<close> belongs to the Go standard library, not to the
  repository. Its documentation fixes three names: the empty name and \<^verbatim>\<open>UTC\<close>
  give UTC, \<^verbatim>\<open>Local\<close> gives the local zone; every other name is looked up in
  the zone database of the machine, which is the parameter \<open>zoneinfo\<close> here. The result
  \<open>None\<close> stands for a non-nil error.
\<close>

datatype location = UTC | Local | Zone string

definition LoadLocation :: "(string \<Rightarrow> bool) \<Rightarrow> string \<Rightarrow> location option" where
  "LoadLocation zoneinfo name =
     (if name = [] \<or> name = ''UTC'' then Some UTC
      else if name = ''Local'' then Some Local
      else if zoneinfo name then Some (Zone name)
      else None)"

definition Timezone :: "(string \<Rightarrow> bool) \<Rightarrow> string \<Rightarrow> bool" where
  "Timezone zoneinfo field =
     (case LoadLocation zoneinfo field of Some _ \<Rightarrow> True | None \<Rightarrow> False)"

text \<open>The shapes the theorems about the two patterns speak of.\<close>

definition is_digit :: "char \<Rightarrow> bool" where
  "is_digit c = (c \<in> set ''0123456789'')"

definition digits :: "nat \<Rightarrow> string \<Rightarrow> bool" where
  "digits n x = (length x = n \<and> list_all is_digit x)"

definition digits1 :: "string \<Rightarrow> bool" where
  "digits1 x = (x \<noteq> [] \<and> list_all is_digit x)"

definition opt_char :: "char \<Rightarrow> string \<Rightarrow> bool" where
  "opt_char c x = (x = [] \<or> x = [c])"

definition opt_fraction :: "string \<Rightarrow> bool" where
  "opt_fraction x = (case x of [] \<Rightarrow> True | c # f \<Rightarrow> c = CHR ''.'' \<and> digits1 f)"

definition opt_separator :: "string \<Rightarrow> bool" where
  "opt_separator x = (x = [] \<or> x = ''-'' \<or> x = ''.'' \<or> x = bullet)"

section \<open>Strings\<close>

text \<open>
  \<^verbatim>\<open>strings.Split(s, sep)\<close> for a separator of one byte: the pieces of
  \<open>s\<close> between the separators, one more than there are separators, so never an empty
  slice. \<^verbatim>\<open>strings.Join(elems, sep)\<close>: the elements with \<open>sep\<close> between
  them.
\<close>

fun split_from :: "string \<Rightarrow> string \<Rightarrow> char \<Rightarrow> string list" where
  "split_from piece [] sep = [piece]"
| "split_from piece (c # s) sep =
     (if c = sep then piece # split_from [] s sep else split_from (piece @ [c]) s sep)"

definition Split :: "string \<Rightarrow> char \<Rightarrow> string list" where
  "Split s sep = split_from [] s sep"

fun Join :: "string list \<Rightarrow> string \<Rightarrow> string" where
  "Join [] sep = []"
| "Join [a] sep = a"
| "Join (a # b # elems) sep = a @ sep @ Join (b # elems) sep"

section \<open>The error aggregate\<close>

text \<open>
  \<^verbatim>\<open>validator.FieldError\<close> is a struct of the walker's library; the package
  reads two of its fields.
\<close>

record FieldError =
  NameNamespace :: string
  Tag :: string

text \<open>
  \<^verbatim>\<open>map[string][]string\<close>: a finite map, or nil (\<open>None\<close>). Reading a nil
  map finds no key and its length is 0; assigning to a key of a nil map panics. The
  aggregate has this map as its only field. A value of the struct type that no
  constructor built (the zero value \<^verbatim>\<open>ValidationErrors{}\<close>) holds the nil map.
\<close>

type_synonym go_map = "(string, string list) fmap"

record ValidationErrors =
  errors :: "go_map option"

datatype panic = AssignmentToNilMap | TypeAssertion | WalkerPanic

definition Len :: "ValidationErrors \<Rightarrow> nat" where
  "Len e = (case errors e of None \<Rightarrow> 0 | Some m \<Rightarrow> fcard (fmdom m))"

definition HasErrors :: "ValidationErrors \<Rightarrow> bool" where
  "HasErrors e = (Len e > 0)"

text \<open>
  \<^verbatim>\<open>AddError\<close> has a pointer receiver and changes the map in place; the model
  returns the aggregate after the call, or the panic.
\<close>

definition AddError :: "ValidationErrors \<Rightarrow> string \<Rightarrow> string \<Rightarrow> panic + ValidationErrors" where
  "AddError e field err =
     (case errors e of
        None \<Rightarrow> Inl AssignmentToNilMap
      | Some m \<Rightarrow>
          (case fmlookup m field of
             Some reasons \<Rightarrow> Inr (e\<lparr>errors := Some (fmupd field (reasons @ [err]) m)\<rparr>)
           | None \<Rightarrow> Inr (e\<lparr>errors := Some (fmupd field [err] m)\<rparr>)))"

text \<open>A sequence of \<^verbatim>\<open>AddError\<close> calls; the first panic ends it.\<close>

fun AddErrors :: "ValidationErrors \<Rightarrow> (string \<times> string) list \<Rightarrow> panic + ValidationErrors" where
  "AddErrors e [] = Inr e"
| "AddErrors e ((field, err) # calls) =
     (case AddError e field err of
        Inl p \<Rightarrow> Inl p
      | Inr e' \<Rightarrow> AddErrors e' calls)"

text \<open>
  \<^verbatim>\<open>for key := range e.errors\<close> visits every key of the map once, in an order
  the runtime chooses. \<open>range_order m order\<close> says that \<open>order\<close> is such a visit; the
  functions that range over a map take the order as an argument.
\<close>

definition range_order :: "go_map option \<Rightarrow> string list \<Rightarrow> bool" where
  "range_order m order =
     (distinct order \<and> fset_of_list order = (case m of None \<Rightarrow> {||} | Some f \<Rightarrow> fmdom f))"

fun append_keys :: "string list \<Rightarrow> string list \<Rightarrow> string list" where
  "append_keys keys [] = keys"
| "append_keys keys (key # order) = append_keys (keys @ [key]) order"

definition Error :: "string list \<Rightarrow> ValidationErrors \<Rightarrow> string" where
  "Error order e =
     (if HasErrors e
      then ''Validation error on fields: '' @ Join (append_keys [] order) '', ''
      else [])"

text \<open>
  \<^verbatim>\<open>NewValidationErrors\<close>: \<open>trim_namespace\<close> is the expression
  \<^verbatim>\<open>strings.Join(strings.Split(err.NameNamespace, ".")[1:], ".")\<close> (the slice
  expression cannot fail, \<^verbatim>\<open>Split\<close> returns at least one piece), and
  \<open>merge_errors\<close> is the loop over the failures, in the order the loop visits them. The
  argument is \<open>None\<close> for a nil \<^verbatim>\<open>validator.ValidationErrors\<close>.
\<close>

definition trim_namespace :: "string \<Rightarrow> string" where
  "trim_namespace ns = Join (drop 1 (Split ns CHR ''.'')) ''.''"

fun merge_errors :: "go_map \<Rightarrow> FieldError list \<Rightarrow> go_map" where
  "merge_errors m [] = m"
| "merge_errors m (err # verrs) =
     merge_errors (fmupd (trim_namespace (NameNamespace err)) [Tag err] m) verrs"

definition NewValidationErrors :: "FieldError list option \<Rightarrow> ValidationErrors" where
  "NewValidationErrors verrs =
     \<lparr>errors = Some (case verrs of None \<Rightarrow> fmempty | Some fs \<Rightarrow> merge_errors fmempty fs)\<rparr>"

text \<open>The failures of one stripped field path, and the distinct stripped field paths.\<close>

definition failures_at :: "string \<Rightarrow> FieldError list \<Rightarrow> FieldError list" where
  "failures_at path verrs = filter (\<lambda>err. trim_namespace (NameNamespace err) = path) verrs"

definition field_paths :: "FieldError list \<Rightarrow> string list" where
  "field_paths verrs = remdups (map (\<lambda>err. trim_namespace (NameNamespace err)) verrs)"

text \<open>The stripped field paths that the construction writes, none for a nil failure list.\<close>

definition paths_of :: "FieldError list option \<Rightarrow> string list" where
  "paths_of verrs =
     (case verrs of None \<Rightarrow> [] | Some fs \<Rightarrow> map (\<lambda>err. trim_namespace (NameNamespace err)) fs)"

section \<open>The top-level operation\<close>

text \<open>
  The value of Go's \<^verbatim>\<open>error\<close> interface, as far as this package makes one: the
  exported sentinel \<^verbatim>\<open>ErrValidation\<close>, or a pointer to an aggregate.
\<close>

datatype go_error = ErrValidation | ValidationErrorsPtr ValidationErrors

text \<open>
  What \<^verbatim>\<open>validate.Struct(i)\<close> of the walker hands back, seen from the type
  assertion \<^verbatim>\<open>errs.(validator.ValidationErrors)\<close>: no error (\<open>None\<close>), a
  \<^verbatim>\<open>validator.ValidationErrors\<close> (its failures in the order the loop of
  \<^verbatim>\<open>NewValidationErrors\<close> visits them), or an error of another dynamic type, on
  which the assertion panics.
\<close>

datatype walker_error = WalkerValidationErrors "FieldError list option" | WalkerOtherError

definition Struct :: "walker_error option \<Rightarrow> panic + go_error option" where
  "Struct errs =
     (case errs of
        None \<Rightarrow> Inr None
      | Some (WalkerValidationErrors verrs) \<Rightarrow>
          Inr (Some (ValidationErrorsPtr (NewValidationErrors verrs)))
      | Some WalkerOtherError \<Rightarrow> Inl TypeAssertion)"

text \<open>
  Modelled from the spec: the struct walker is the external library validator.v8, which
  is not under src/. Its contract (section 4.3 of the spec): it collects the failures of
  every annotated field of the instance and returns them, or nothing when there is none.
  \<open>failures\<close> are the violations of the instance.
\<close>

definition validate_Struct :: "FieldError list \<Rightarrow> walker_error option" where
  "validate_Struct failures =
     (if failures = [] then None else Some (WalkerValidationErrors (Some failures)))"




section \<open>Serialization\<close>

text \<open>
  \<^verbatim>\<open>encoding/json\<close> belongs to the Go standard library, not to the repository.
  The model stops at the JSON document: which value \<^verbatim>\<open>json.Marshal\<close> writes
  for a \<^verbatim>\<open>map[string][]string\<close> and which map \<^verbatim>\<open>json.Unmarshal\<close>
  reads from a document into a nil map of that type, as the library documents them.
  The escapes of the document's text are not modelled: each of them is read back as the
  character it stands for.

  The encoder does not write a Go string as it is. It reads the string rune by rune with
  \<^verbatim>\<open>utf8.DecodeRuneInString\<close> and writes the replacement character U+FFFD (the
  bytes EF BF BD) for every byte at which no well-formed UTF-8 sequence starts.
  \<open>rune_size\<close> is the width of the well-formed sequence at the head of a string, 0 when
  there is none: one ASCII byte; a leading byte C2..DF, E0..EF or F0..F4 with one, two
  or three following bytes, the second in the range that the leading byte accepts, the
  others in 80..BF.
\<close>

definition byte_in :: "nat \<Rightarrow> nat \<Rightarrow> char \<Rightarrow> bool" where
  "byte_in lo hi b = (lo \<le> of_char b \<and> of_char b \<le> hi)"

definition continuation :: "char \<Rightarrow> bool" where
  "continuation b = byte_in 0x80 0xBF b"

definition accepts :: "char \<Rightarrow> char \<Rightarrow> bool" where
  "accepts b0 b1 =
     (if b0 = CHR 0xE0 then byte_in 0xA0 0xBF b1
      else if b0 = CHR 0xED then byte_in 0x80 0x9F b1
      else if b0 = CHR 0xF0 then byte_in 0x90 0xBF b1
      else if b0 = CHR 0xF4 then byte_in 0x80 0x8F b1
      else byte_in 0x80 0xBF b1)"

fun rune_size :: "string \<Rightarrow> nat" where
  "rune_size [] = 0"
| "rune_size (b0 # rest) =
     (if byte_in 0x00 0x7F b0 then 1
      else if byte_in 0xC2 0xDF b0 then
        (case rest of
           b1 # _ \<Rightarrow> if accepts b0 b1 then 2 else 0
         | _ \<Rightarrow> 0)
      else if byte_in 0xE0 0xEF b0 then
        (case rest of
           b1 # b2 # _ \<Rightarrow> if accepts b0 b1 \<and> continuation b2 then 3 else 0
         | _ \<Rightarrow> 0)
      else if byte_in 0xF0 0xF4 b0 then
        (case rest of
           b1 # b2 # b3 # _ \<Rightarrow>
             if accepts b0 b1 \<and> continuation b2 \<and> continuation b3 then 4 else 0
         | _ \<Rightarrow> 0)
      else 0)"

definition replacement :: string where
  "replacement = [CHR 0xEF, CHR 0xBF, CHR 0xBD]"

text \<open>
  The string that the document holds for a Go string: \<open>copy\<close> counts the bytes of the
  current well-formed sequence that are still to be copied.
\<close>

fun coerce_from :: "nat \<Rightarrow> string \<Rightarrow> string" where
  "coerce_from copy [] = []"
| "coerce_from (Suc copy) (b # s) = b # coerce_from copy s"
| "coerce_from 0 (b # s) =
     (case rune_size (b # s) of
        0 \<Rightarrow> replacement @ coerce_from 0 s
      | Suc copy \<Rightarrow> b # coerce_from copy s)"

definition json_string :: "string \<Rightarrow> string" where
  "json_string s = coerce_from 0 s"

text \<open>
  A nil map is written as \<^verbatim>\<open>null\<close>; any other map as an object with one
  member per key, in the sorted order of the keys, each value an array of strings.
  \<^verbatim>\<open>json.Marshal\<close> returns no error for a value of this type. No reason list of
  an aggregate is a nil slice, so the model does not tell a nil slice from an empty one.
\<close>

datatype json = JNull | JString string | JArray "json list" | JObject "(string \<times> json) list"

definition json_Marshal :: "go_map option \<Rightarrow> json \<times> go_error option" where
  "json_Marshal v =
     (case v of
        None \<Rightarrow> (JNull, None)
      | Some m \<Rightarrow>
          (JObject (map (\<lambda>k. (json_string k,
                               JArray (map (\<lambda>reason. JString (json_string reason))
                                 (the (fmlookup m k)))))
                       (sorted_list_of_fset (fmdom m))),
           None))"

definition MarshalJSON :: "ValidationErrors \<Rightarrow> json \<times> go_error option" where
  "MarshalJSON e = json_Marshal (errors e)"

text \<open>
  Reading a document into a nil \<^verbatim>\<open>map[string][]string\<close>: \<^verbatim>\<open>null\<close>
  leaves the map nil, an object gives a map in which a later member replaces an earlier
  one of the same key, \<^verbatim>\<open>null\<close> stands for the zero value of a slice or of a
  string, and any other document is an error (\<open>None\<close>).
\<close>

fun decode_strings :: "json list \<Rightarrow> string list option" where
  "decode_strings [] = Some []"
| "decode_strings (JString s # js) = map_option ((#) s) (decode_strings js)"
| "decode_strings (JNull # js) = map_option ((#) []) (decode_strings js)"
| "decode_strings (_ # js) = None"

fun decode_members :: "go_map \<Rightarrow> (string \<times> json) list \<Rightarrow> go_map option" where
  "decode_members m [] = Some m"
| "decode_members m ((k, JArray js) # kvs) =
     (case decode_strings js of
        None \<Rightarrow> None
      | Some reasons \<Rightarrow> decode_members (fmupd k reasons m) kvs)"
| "decode_members m ((k, JNull) # kvs) = decode_members (fmupd k [] m) kvs"
| "decode_members m ((k, _) # kvs) = None"

fun json_Unmarshal :: "json \<Rightarrow> go_map option option" where
  "json_Unmarshal JNull = Some None"
| "json_Unmarshal (JObject kvs) = map_option Some (decode_members fmempty kvs)"
| "json_Unmarshal _ = None"

text \<open>
  The strings that the encoder writes as they are, which are the well-formed UTF-8
  strings (a replacement makes the string longer), and the maps that hold no other
  string.
\<close>

definition valid_utf8 :: "string \<Rightarrow> bool" where
  "valid_utf8 s = (json_string s = s)"

definition strings_valid :: "go_map \<Rightarrow> bool" where
  "strings_valid m =
     list_all (\<lambda>k. valid_utf8 k \<and> list_all valid_utf8 (the (fmlookup m k)))
       (sorted_list_of_fset (fmdom m))"

section \<open>The matcher decides the language of a pattern\<close>

lemma nullable_lang: "nullable r \<longleftrightarrow> [] \<in> lang r"
  by (induction r) (auto simp: conc_def intro: star.intros)

lemma conc_cons: "c # w \<in> conc A B \<longleftrightarrow>
  (\<exists>u v. w = u @ v \<and> c # u \<in> A \<and> v \<in> B) \<or> ([] \<in> A \<and> c # w \<in> B)"
  by (auto simp: conc_def Cons_eq_append_conv)

lemma star_cons_D: "x \<in> star A \<Longrightarrow> x = c # w \<Longrightarrow> \<exists>u v. w = u @ v \<and> c # u \<in> A \<and> v \<in> star A"
proof (induction arbitrary: rule: star.induct)
  case star_nil
  then show ?case by simp
next
  case (star_app u v)
  show ?case
  proof (cases u)
    case Nil
    with star_app show ?thesis by simp
  next
    case (Cons a u')
    with star_app.prems star_app.hyps show ?thesis by auto
  qed
qed

lemma star_cons: "c # w \<in> star A \<longleftrightarrow> (\<exists>u v. w = u @ v \<and> c # u \<in> A \<and> v \<in> star A)"
proof
  assume "c # w \<in> star A"
  then show "\<exists>u v. w = u @ v \<and> c # u \<in> A \<and> v \<in> star A"
    using star_cons_D by blast
next
  assume "\<exists>u v. w = u @ v \<and> c # u \<in> A \<and> v \<in> star A"
  then obtain u v where "w = u @ v" "c # u \<in> A" "v \<in> star A" by blast
  then show "c # w \<in> star A"
    using star_app [of "c # u" A v] by simp
qed

lemma lang_deriv: "w \<in> lang (deriv c r) \<longleftrightarrow> c # w \<in> lang r"
proof (induction r arbitrary: w)
  case (Cat r s)
  then show ?case
    by (auto simp: conc_cons nullable_lang) (auto simp: conc_def)
next
  case (Star r)
  then show ?case
    by (auto simp: star_cons) (auto simp: conc_def)
qed auto

lemma full_match_lang: "full_match r w \<longleftrightarrow> w \<in> lang r"
  by (induction w arbitrary: r) (auto simp: nullable_lang lang_deriv)

lemma in_conc: "w \<in> conc A B \<longleftrightarrow> (\<exists>u v. w = u @ v \<and> u \<in> A \<and> v \<in> B)"
  by (auto simp: conc_def)

lemma conc_unit: "conc A {[]} = A"
  by (auto simp: conc_def)

lemma lang_Concat: "lang (Concat (r # rs)) = conc (lang r) (lang (Concat rs))"
  by (cases rs) (simp_all add: conc_unit)

lemma lang_Quest: "lang (Quest r) = insert [] (lang r)"
  by (auto simp: Quest_def)

lemma lang_Lit: "lang (Lit c) = {[c]}"
  by (simp add: Lit_def)

lemma lang_Digit: "lang Digit = {[c] | c. is_digit c}"
  by (simp add: Digit_def is_digit_def)

lemma star_Digit: "star (lang Digit) = {x. list_all is_digit x}"
proof (rule set_eqI)
  fix x
  have "x \<in> star (lang Digit) \<Longrightarrow> list_all is_digit x"
    by (induction rule: star.induct) (auto simp: lang_Digit)
  moreover have "list_all is_digit x \<Longrightarrow> x \<in> star (lang Digit)"
  proof (induction x)
    case Nil
    show ?case by (rule star_nil)
  next
    case (Cons c x)
    then have "[c] \<in> lang Digit" "x \<in> star (lang Digit)"
      by (simp_all add: lang_Digit)
    then have "[c] @ x \<in> star (lang Digit)" by (rule star_app)
    then show ?case by simp
  qed
  ultimately show "x \<in> star (lang Digit) \<longleftrightarrow> x \<in> {x. list_all is_digit x}" by blast
qed

lemma Digit_prefix:
  "(\<exists>u v. x = u @ v \<and> u \<in> lang Digit \<and> P v) \<longleftrightarrow> (\<exists>c v. x = c # v \<and> is_digit c \<and> P v)"
proof
  assume "\<exists>u v. x = u @ v \<and> u \<in> lang Digit \<and> P v"
  then show "\<exists>c v. x = c # v \<and> is_digit c \<and> P v"
    by (auto simp: lang_Digit)
next
  assume "\<exists>c v. x = c # v \<and> is_digit c \<and> P v"
  then obtain c v where "x = c # v" "is_digit c" "P v" by blast
  then have "x = [c] @ v \<and> [c] \<in> lang Digit \<and> P v"
    by (simp add: lang_Digit)
  then show "\<exists>u v. x = u @ v \<and> u \<in> lang Digit \<and> P v" by blast
qed

lemma lang_Plus_Digit: "lang (Plus Digit) = {x. digits1 x}"
proof (rule set_eqI)
  fix x
  have "x \<in> lang (Plus Digit) \<longleftrightarrow> (\<exists>u v. x = u @ v \<and> u \<in> lang Digit \<and> list_all is_digit v)"
    by (simp add: Plus_def star_Digit in_conc)
  also have "\<dots> \<longleftrightarrow> (\<exists>c v. x = c # v \<and> is_digit c \<and> list_all is_digit v)"
    by (rule Digit_prefix)
  also have "\<dots> \<longleftrightarrow> digits1 x"
    by (cases x) (auto simp: digits1_def)
  finally show "x \<in> lang (Plus Digit) \<longleftrightarrow> x \<in> {x. digits1 x}" by simp
qed

lemma lang_Repeat_Digit: "lang (Repeat n Digit) = {x. digits n x}"
proof (induction n)
  case 0
  show ?case by (auto simp: digits_def)
next
  case (Suc n)
  show ?case
  proof (rule set_eqI)
    fix x
    have "x \<in> lang (Repeat (Suc n) Digit) \<longleftrightarrow> (\<exists>u v. x = u @ v \<and> u \<in> lang Digit \<and> digits n v)"
      by (simp add: Suc in_conc)
    also have "\<dots> \<longleftrightarrow> (\<exists>c v. x = c # v \<and> is_digit c \<and> digits n v)"
      by (rule Digit_prefix)
    also have "\<dots> \<longleftrightarrow> digits (Suc n) x"
      by (cases x) (auto simp: digits_def)
    finally show "x \<in> lang (Repeat (Suc n) Digit) \<longleftrightarrow> x \<in> {x. digits (Suc n) x}" by simp
  qed
qed

lemma lang_bullet: "lang (Concat (map Lit bullet)) = {bullet}"
  by (simp add: bullet_def lang_Lit conc_def)

lemma lang_Separator: "lang Separator = {''-'', ''.'', bullet}"
  unfolding Separator_def lang.simps lang_bullet by auto

lemma lang_opt_Separator: "lang (Quest Separator) = {x. opt_separator x}"
  by (auto simp: lang_Quest lang_Separator opt_separator_def)

lemma lang_opt_Lit: "lang (Quest (Lit c)) = {x. opt_char c x}"
  by (auto simp: lang_Quest lang_Lit opt_char_def)

lemma concI: "u \<in> A \<Longrightarrow> v \<in> B \<Longrightarrow> u @ v \<in> conc A B"
  by (auto simp: conc_def)

lemma concE: "w \<in> conc A B \<Longrightarrow> (\<And>u v. w = u @ v \<Longrightarrow> u \<in> A \<Longrightarrow> v \<in> B \<Longrightarrow> thesis) \<Longrightarrow> thesis"
  by (auto simp: conc_def)

lemma lang_validPhoneRegex_unfold:
  "lang validPhoneRegex =
     conc {x. opt_char CHR ''('' x} (conc {x. digits 3 x} (conc {x. opt_char CHR '')'' x}
       (conc {'' ''} (conc {x. opt_separator x} (conc {x. digits 3 x}
         (conc {x. opt_separator x} {x. digits 4 x}))))))"
  unfolding validPhoneRegex_def lang_Concat lang_opt_Lit lang_opt_Separator lang_Repeat_Digit lang_Lit
  by (simp add: conc_unit)

lemma lang_validPhoneRegex:
  "w \<in> lang validPhoneRegex \<longleftrightarrow>
   (\<exists>lp area rp sep1 mid sep2 last4.
      w = lp @ area @ rp @ '' '' @ sep1 @ mid @ sep2 @ last4 \<and>
      opt_char CHR ''('' lp \<and> digits 3 area \<and> opt_char CHR '')'' rp \<and>
      opt_separator sep1 \<and> digits 3 mid \<and> opt_separator sep2 \<and> digits 4 last4)"
  (is "?L \<longleftrightarrow> ?R")
proof
  assume ?L
  then show ?R
    unfolding lang_validPhoneRegex_unfold
  proof (elim concE)
    fix lp r1 area r2 rp r3 sp r4 sep1 r5 mid r6 sep2 last4
    assume "w = lp @ r1" "r1 = area @ r2" "r2 = rp @ r3" "r3 = sp @ r4" "r4 = sep1 @ r5"
      "r5 = mid @ r6" "r6 = sep2 @ last4" "sp \<in> {'' ''}"
    then have w: "w = lp @ area @ rp @ '' '' @ sep1 @ mid @ sep2 @ last4" by simp
    assume "lp \<in> {x. opt_char CHR ''('' x}" "area \<in> {x. digits 3 x}"
      "rp \<in> {x. opt_char CHR '')'' x}" "sep1 \<in> {x. opt_separator x}"
      "mid \<in> {x. digits 3 x}" "sep2 \<in> {x. opt_separator x}" "last4 \<in> {x. digits 4 x}"
    then have "opt_char CHR ''('' lp \<and> digits 3 area \<and> opt_char CHR '')'' rp \<and>
      opt_separator sep1 \<and> digits 3 mid \<and> opt_separator sep2 \<and> digits 4 last4" by simp
    with w show ?R by blast
  qed
next
  assume ?R
  then obtain lp area rp sep1 mid sep2 last4 where
    w: "w = lp @ area @ rp @ '' '' @ sep1 @ mid @ sep2 @ last4" and
    p: "opt_char CHR ''('' lp" "digits 3 area" "opt_char CHR '')'' rp"
      "opt_separator sep1" "digits 3 mid" "opt_separator sep2" "digits 4 last4"
    by blast
  show ?L
    unfolding lang_validPhoneRegex_unfold w
    by (intro concI) (simp_all add: p)
qed

lemma lang_opt_fraction: "lang (Quest (Concat [Lit CHR ''.'', Plus Digit])) = {x. opt_fraction x}"
proof (rule set_eqI)
  fix x
  have "x \<in> lang (Quest (Concat [Lit CHR ''.'', Plus Digit])) \<longleftrightarrow>
     x = [] \<or> (\<exists>v. x = CHR ''.'' # v \<and> digits1 v)"
    by (simp add: lang_Quest lang_Concat lang_Lit lang_Plus_Digit conc_unit in_conc)
  also have "\<dots> \<longleftrightarrow> opt_fraction x"
    by (cases x) (auto simp: opt_fraction_def)
  finally show "x \<in> lang (Quest (Concat [Lit CHR ''.'', Plus Digit])) \<longleftrightarrow> x \<in> {x. opt_fraction x}"
    by simp
qed

lemma lang_validCoordinateRegex_unfold:
  "lang validCoordinateRegex =
     conc (conc {x. opt_char CHR ''-'' x} {x. digits1 x}) (conc {x. opt_fraction x}
       (conc {'',''} (conc (conc {x. opt_char CHR ''-'' x} {x. digits1 x}) {x. opt_fraction x})))"
  unfolding validCoordinateRegex_def lang_Concat lang_opt_fraction lang_opt_Lit lang_Plus_Digit lang_Lit
  by (simp add: conc_unit)

lemma lang_validCoordinateRegex:
  "w \<in> lang validCoordinateRegex \<longleftrightarrow>
   (\<exists>s1 i1 f1 s2 i2 f2.
      w = s1 @ i1 @ f1 @ '','' @ s2 @ i2 @ f2 \<and>
      opt_char CHR ''-'' s1 \<and> digits1 i1 \<and> opt_fraction f1 \<and>
      opt_char CHR ''-'' s2 \<and> digits1 i2 \<and> opt_fraction f2)"
  (is "?L \<longleftrightarrow> ?R")
proof
  assume ?L
  then show ?R
    unfolding lang_validCoordinateRegex_unfold
  proof (elim concE)
    fix n1 r1 s1 i1 f1 r2 cm r3 n2 f2 s2 i2
    assume "w = n1 @ r1" "n1 = s1 @ i1" "r1 = f1 @ r2" "r2 = cm @ r3" "r3 = n2 @ f2"
      "n2 = s2 @ i2" "cm \<in> {'',''}"
    then have w: "w = s1 @ i1 @ f1 @ '','' @ s2 @ i2 @ f2" by simp
    assume "s1 \<in> {x. opt_char CHR ''-'' x}" "i1 \<in> {x. digits1 x}" "f1 \<in> {x. opt_fraction x}"
      "s2 \<in> {x. opt_char CHR ''-'' x}" "i2 \<in> {x. digits1 x}" "f2 \<in> {x. opt_fraction x}"
    then have "opt_char CHR ''-'' s1 \<and> digits1 i1 \<and> opt_fraction f1 \<and>
      opt_char CHR ''-'' s2 \<and> digits1 i2 \<and> opt_fraction f2" by simp
    with w show ?R by blast
  qed
next
  assume ?R
  then obtain s1 i1 f1 s2 i2 f2 where
    w: "w = (s1 @ i1) @ f1 @ '','' @ (s2 @ i2) @ f2" and
    p: "opt_char CHR ''-'' s1" "digits1 i1" "opt_fraction f1"
      "opt_char CHR ''-'' s2" "digits1 i2" "opt_fraction f2"
    by auto
  show ?L
    unfolding lang_validCoordinateRegex_unfold w
    by (intro concI) (simp_all add: p)
qed

lemma is_digit_comma: "\<not> is_digit CHR '',''"
  by (simp add: is_digit_def)

lemma digits1_no_comma: "digits1 x \<Longrightarrow> count_list x CHR '','' = 0"
proof -
  assume "digits1 x"
  then have "CHR '','' \<notin> set x"
    using is_digit_comma by (auto simp: digits1_def list_all_iff)
  then show ?thesis by (simp add: count_list_0_iff)
qed

lemma opt_char_no_comma: "opt_char CHR ''-'' x \<Longrightarrow> count_list x CHR '','' = 0"
  by (auto simp: opt_char_def)

lemma opt_fraction_no_comma: "opt_fraction x \<Longrightarrow> count_list x CHR '','' = 0"
  by (cases x) (auto simp: opt_fraction_def digits1_no_comma)

section \<open>Lemmas on the aggregate\<close>

lemma split_from_not_Nil: "split_from piece s sep \<noteq> []"
  by (induction s arbitrary: piece) auto

lemma Join_Cons: "Join (a # elems) sep = (if elems = [] then a else a @ sep @ Join elems sep)"
  by (cases elems) auto

lemma Join_split_from: "Join (split_from piece s sep) [sep] = piece @ s"
proof (induction s arbitrary: piece)
  case Nil
  show ?case by simp
next
  case (Cons c s)
  show ?case
  proof (cases "c = sep")
    case True
    then show ?thesis
      using Cons [of "[]"] by (simp add: Join_Cons split_from_not_Nil)
  next
    case False
    then show ?thesis
      using Cons [of "piece @ [c]"] by simp
  qed
qed

lemma split_from_no_sep: "sep \<notin> set s \<Longrightarrow> split_from piece s sep = [piece @ s]"
  by (induction s arbitrary: piece) auto

lemma split_from_first:
  "sep \<notin> set root \<Longrightarrow> split_from piece (root @ sep # rest) sep = (piece @ root) # split_from [] rest sep"
  by (induction root arbitrary: piece) auto

lemma trim_namespace_rooted:
  "CHR ''.'' \<notin> set root \<Longrightarrow> trim_namespace (root @ ''.'' @ rest) = rest"
  using Join_split_from [of "[]" rest "CHR ''.''"]
  by (simp add: trim_namespace_def Split_def split_from_first)

lemma trim_namespace_no_dot: "CHR ''.'' \<notin> set ns \<Longrightarrow> trim_namespace ns = []"
  by (simp add: trim_namespace_def Split_def split_from_no_sep)

lemma merge_errors_lookup:
  "fmlookup (merge_errors m verrs) path =
     (case failures_at path verrs of
        [] \<Rightarrow> fmlookup m path
      | err # same \<Rightarrow> Some [Tag (last (err # same))])"
proof (induction verrs arbitrary: m)
  case Nil
  show ?case by (simp add: failures_at_def)
next
  case (Cons err verrs)
  show ?case
    using Cons [of "fmupd (trim_namespace (NameNamespace err)) [Tag err] m"]
    by (auto simp: failures_at_def split: list.splits)
qed

lemma merge_errors_dom:
  "fmdom (merge_errors m verrs) =
     fmdom m |\<union>| fset_of_list (map (\<lambda>err. trim_namespace (NameNamespace err)) verrs)"
  by (induction verrs arbitrary: m) auto

lemma fcard_fset_of_list: "fcard (fset_of_list xs) = length (remdups xs)"
  by (simp add: fcard.rep_eq fset_of_list.rep_eq card_set)

section \<open>Lemmas on counting, iteration and serialization\<close>

lemma Len_NewValidationErrors:
  "Len (NewValidationErrors (Some verrs)) = length (field_paths verrs)"
proof -
  have "fmdom (merge_errors fmempty verrs) =
      fset_of_list (map (\<lambda>err. trim_namespace (NameNamespace err)) verrs)"
    unfolding merge_errors_dom by simp
  then have "fcard (fmdom (merge_errors fmempty verrs)) = length (field_paths verrs)"
    unfolding field_paths_def by (simp only: fcard_fset_of_list)
  then show ?thesis
    by (simp add: Len_def NewValidationErrors_def)
qed

lemma field_paths_not_Nil: "verrs \<noteq> [] \<Longrightarrow> field_paths verrs \<noteq> []"
  by (cases verrs) (auto simp: field_paths_def)

lemma append_keys_eq: "append_keys keys order = keys @ order"
  by (induction order arbitrary: keys) auto

lemma range_order_Len: "range_order (errors e) order \<Longrightarrow> Len e = length order"
proof -
  assume r: "range_order (errors e) order"
  then have "distinct order"
    by (simp add: range_order_def)
  then have "fcard (fset_of_list order) = length order"
    by (simp add: fcard_fset_of_list)
  moreover have "Len e = fcard (fset_of_list order)"
    using r by (simp add: range_order_def Len_def split: option.splits)
  ultimately show ?thesis by simp
qed

lemma range_order_exists: "\<exists>order. range_order m order"
proof (cases m)
  case None
  then have "range_order m []" by (simp add: range_order_def)
  then show ?thesis ..
next
  case (Some f)
  have "distinct (sorted_list_of_fset (fmdom f))"
    by (simp add: sorted_list_of_fset.rep_eq)
  with Some have "range_order m (sorted_list_of_fset (fmdom f))"
    by (simp add: range_order_def)
  then show ?thesis ..
qed

lemma AddError_non_nil:
  "AddError \<lparr>errors = Some m\<rparr> field err =
     Inr \<lparr>errors = Some (fmupd field
       (case fmlookup m field of None \<Rightarrow> [err] | Some reasons \<Rightarrow> reasons @ [err]) m)\<rparr>"
  by (simp add: AddError_def split: option.splits)

lemma AddErrors_non_nil:
  "\<forall>field. fmlookup m field \<noteq> Some [] \<Longrightarrow>
   \<exists>m'. AddErrors \<lparr>errors = Some m\<rparr> calls = Inr \<lparr>errors = Some m'\<rparr> \<and>
        (\<forall>field. fmlookup m' field \<noteq> Some []) \<and>
        fmdom m' = fmdom m |\<union>| fset_of_list (map fst calls)"
proof (induction calls arbitrary: m)
  case Nil
  then show ?case by simp
next
  case (Cons call calls)
  obtain field err where call: "call = (field, err)" by (cases call)
  let ?m = "fmupd field (case fmlookup m field of None \<Rightarrow> [err] | Some reasons \<Rightarrow> reasons @ [err]) m"
  have "\<forall>f. fmlookup ?m f \<noteq> Some []"
    using Cons.prems by (auto split: option.splits)
  from Cons.IH [OF this] obtain m' where
    m': "AddErrors \<lparr>errors = Some ?m\<rparr> calls = Inr \<lparr>errors = Some m'\<rparr>"
      "\<forall>f. fmlookup m' f \<noteq> Some []"
      "fmdom m' = fmdom ?m |\<union>| fset_of_list (map fst calls)"
    by blast
  have "AddErrors \<lparr>errors = Some m\<rparr> (call # calls) = Inr \<lparr>errors = Some m'\<rparr>"
    by (simp add: call AddError_non_nil m'(1))
  moreover have "fmdom m' = fmdom m |\<union>| fset_of_list (map fst (call # calls))"
    by (simp add: m'(3) call)
  ultimately show ?case using m'(2) by blast
qed

lemma NewValidationErrors_non_nil:
  "\<exists>m. NewValidationErrors verrs = \<lparr>errors = Some m\<rparr> \<and>
       (\<forall>field. fmlookup m field \<noteq> Some []) \<and>
       fmdom m = fset_of_list (paths_of verrs)"
proof (cases verrs)
  case None
  then show ?thesis by (simp add: NewValidationErrors_def paths_of_def)
next
  case (Some fs)
  have "fmlookup (merge_errors fmempty fs) field \<noteq> Some []" for field
    by (simp add: merge_errors_lookup split: list.splits)
  moreover have "fmdom (merge_errors fmempty fs) = fset_of_list (paths_of (Some fs))"
    unfolding merge_errors_dom paths_of_def by simp
  ultimately show ?thesis
    using Some by (simp add: NewValidationErrors_def)
qed

lemma decode_strings_JString: "decode_strings (map JString reasons) = Some reasons"
  by (induction reasons) auto

lemma decode_members_encoded:
  "decode_members m0 (map (\<lambda>k. (k, JArray (map JString (f k)))) ks) =
     Some (fold (\<lambda>k. fmupd k (f k)) ks m0)"
  by (induction ks arbitrary: m0) (auto simp: decode_strings_JString)

lemma fold_fmupd_lookup:
  "fmlookup (fold (\<lambda>k. fmupd k (f k)) ks m0) x =
     (if x \<in> set ks then Some (f x) else fmlookup m0 x)"
  by (induction ks arbitrary: m0) auto

lemma fold_fmupd_dom:
  "fold (\<lambda>k. fmupd k (the (fmlookup m k))) (sorted_list_of_fset (fmdom m)) fmempty = m"
proof (rule fmap_ext)
  fix x
  show "fmlookup (fold (\<lambda>k. fmupd k (the (fmlookup m k))) (sorted_list_of_fset (fmdom m)) fmempty) x =
      fmlookup m x"
  proof (cases "fmlookup m x")
    case None
    then have "x |\<notin>| fmdom m" by (rule fmdom_notI)
    with None show ?thesis by (simp add: fold_fmupd_lookup)
  next
    case (Some reasons)
    then have "x |\<in>| fmdom m" by (simp add: fmlookup_dom_iff)
    with Some show ?thesis by (simp add: fold_fmupd_lookup)
  qed
qed

lemma json_Marshal_valid:
  assumes "strings_valid m"
  shows "json_Marshal (Some m) =
    (JObject (map (\<lambda>k. (k, JArray (map JString (the (fmlookup m k)))))
       (sorted_list_of_fset (fmdom m))), None)"
proof -
  have "(json_string k, JArray (map (\<lambda>reason. JString (json_string reason)) (the (fmlookup m k)))) =
      (k, JArray (map JString (the (fmlookup m k))))"
    if "k \<in> set (sorted_list_of_fset (fmdom m))" for k
  proof -
    from assms that have k: "valid_utf8 k" and r: "list_all valid_utf8 (the (fmlookup m k))"
      unfolding strings_valid_def list_all_iff by blast+
    from r have "map (\<lambda>reason. JString (json_string reason)) (the (fmlookup m k)) =
        map JString (the (fmlookup m k))"
      by (induction "the (fmlookup m k)") (auto simp: list_all_iff valid_utf8_def)
    with k show ?thesis by (simp add: valid_utf8_def)
  qed
  then have "map (\<lambda>k. (json_string k,
        JArray (map (\<lambda>reason. JString (json_string reason)) (the (fmlookup m k)))))
        (sorted_list_of_fset (fmdom m)) =
      map (\<lambda>k. (k, JArray (map JString (the (fmlookup m k))))) (sorted_list_of_fset (fmdom m))"
    by (rule map_cong [OF refl])
  then show ?thesis by (simp add: json_Marshal_def)
qed

lemma json_roundtrip_valid:
  "strings_valid m \<Longrightarrow> json_Unmarshal (fst (json_Marshal (Some m))) = Some (Some m)"
  by (simp add: json_Marshal_valid decode_members_encoded fold_fmupd_dom)

lemma json_Marshal_members:
  assumes "strings_valid m"
  shows "\<exists>members. json_Marshal (Some m) = (JObject members, None) \<and> distinct (map fst members) \<and>
     (\<forall>k v. (k, v) \<in> set members \<longleftrightarrow>
        (\<exists>reasons. fmlookup m k = Some reasons \<and> v = JArray (map JString reasons)))"
proof -
  let ?ks = "sorted_list_of_fset (fmdom m)"
  let ?members = "map (\<lambda>k. (k, JArray (map JString (the (fmlookup m k))))) ?ks"
  have "map fst ?members = ?ks" by (simp add: comp_def)
  moreover have "distinct ?ks" by (simp add: sorted_list_of_fset.rep_eq)
  ultimately have d: "distinct (map fst ?members)" by simp
  have "(k, v) \<in> set ?members \<longleftrightarrow>
        (\<exists>reasons. fmlookup m k = Some reasons \<and> v = JArray (map JString reasons))" for k v
    by (auto simp: fmlookup_dom_iff)
  with d have "json_Marshal (Some m) = (JObject ?members, None) \<and> distinct (map fst ?members) \<and>
     (\<forall>k v. (k, v) \<in> set ?members \<longleftrightarrow>
        (\<exists>reasons. fmlookup m k = Some reasons \<and> v = JArray (map JString reasons)))"
    by (simp add: json_Marshal_valid [OF assms])
  then show ?thesis by blast
qed

section \<open>The claims\<close>

subsection \<open>Construction from the walker's failures\<close>

text \<open>
  C1: for every non-nil failure list, the aggregate that \<^verbatim>\<open>NewValidationErrors\<close>
  builds has a (non-nil) mapping whose value at a path is: nothing when no failure has
  that path once its root segment is removed; otherwise the list of exactly one reason,
  the rule name of the last failure of the list with that stripped path (earlier rules of
  the path are overwritten). Removing the root segment takes a name \<open>root.rest\<close>, where
  \<open>root\<close> has no dot, to \<open>rest\<close>, and a name with no dot to the empty path.
\<close>

theorem NewValidationErrors_keeps_last:
  "(\<exists>m. errors (NewValidationErrors (Some verrs)) = Some m \<and>
        (\<forall>path. fmlookup m path =
           (case failures_at path verrs of
              [] \<Rightarrow> None
            | err # same \<Rightarrow> Some [Tag (last (err # same))]))) \<and>
   (CHR ''.'' \<notin> set root \<longrightarrow> trim_namespace (root @ ''.'' @ rest) = rest) \<and>
   (CHR ''.'' \<notin> set root \<longrightarrow> trim_namespace root = [])"
proof -
  have "fmlookup (merge_errors fmempty verrs) path =
           (case failures_at path verrs of
              [] \<Rightarrow> None
            | err # same \<Rightarrow> Some [Tag (last (err # same))])" for path
    by (simp add: merge_errors_lookup split: list.splits)
  then have "\<exists>m. errors (NewValidationErrors (Some verrs)) = Some m \<and>
        (\<forall>path. fmlookup m path =
           (case failures_at path verrs of
              [] \<Rightarrow> None
            | err # same \<Rightarrow> Some [Tag (last (err # same))]))"
    by (simp add: NewValidationErrors_def)
  then show ?thesis
    using trim_namespace_rooted [of root rest] trim_namespace_no_dot [of root] by blast
qed

theorem NewValidationErrors_keeps_last_witness:
  "(\<exists>m. errors (NewValidationErrors (Some
        [\<lparr>NameNamespace = ''User.phone'', Tag = ''required''\<rparr>,
         \<lparr>NameNamespace = ''User.home.zone'', Tag = ''timezone''\<rparr>,
         \<lparr>NameNamespace = ''User.phone'', Tag = ''phone''\<rparr>])) = Some m \<and>
        fmlookup m ''phone'' = Some [''phone''] \<and>
        fmlookup m ''home.zone'' = Some [''timezone''] \<and>
        fmlookup m ''User.phone'' = None) \<and>
   CHR ''.'' \<notin> set ''User'' \<and> trim_namespace (''User'' @ ''.'' @ ''home.zone'') = ''home.zone'' \<and>
   trim_namespace ''User'' = []"
proof -
  let ?verrs = "[\<lparr>NameNamespace = ''User.phone'', Tag = ''required''\<rparr>,
         \<lparr>NameNamespace = ''User.home.zone'', Tag = ''timezone''\<rparr>,
         \<lparr>NameNamespace = ''User.phone'', Tag = ''phone''\<rparr>]"
  have t: "trim_namespace ''User.phone'' = ''phone''" "trim_namespace ''User.home.zone'' = ''home.zone''"
    by (simp_all add: trim_namespace_def Split_def)
  have d: "CHR ''.'' \<notin> set ''User''" by simp
  show ?thesis
    using NewValidationErrors_keeps_last [of ?verrs "''User''" "''home.zone''"] d
    by (auto simp: failures_at_def t)
qed

subsection \<open>The phone pattern\<close>

text \<open>
  C3, as the code has it: the phone predicate returns true exactly when the value is an
  optional opening parenthesis, 3 digits, an optional closing parenthesis, one space,
  an optional separator (hyphen, period or bullet), 3 digits, an optional separator
  (hyphen, period or bullet) and 4 digits. The space after the area code is not optional
  and is the only place of a space.
\<close>

theorem Phone_iff:
  "Phone w \<longleftrightarrow>
   (\<exists>lp area rp sep1 mid sep2 last4.
      w = lp @ area @ rp @ '' '' @ sep1 @ mid @ sep2 @ last4 \<and>
      opt_char CHR ''('' lp \<and> digits 3 area \<and> opt_char CHR '')'' rp \<and>
      opt_separator sep1 \<and> digits 3 mid \<and> opt_separator sep2 \<and> digits 4 last4)"
  by (simp add: Phone_def full_match_lang lang_validPhoneRegex)

text \<open>
  Against C3 as stated: an area code followed at once by the next 3 digits is rejected,
  with or without parentheses, and so is a space as the second separator.
\<close>

theorem Phone_no_space_counterexample:
  "\<not> Phone ''(555)123-4567'' \<and> \<not> Phone ''5551234567'' \<and> \<not> Phone ''555 123 4567''"
  by code_simp

text \<open>
  C5: the phone predicate returns true on \<^verbatim>\<open>(555) 123-4567\<close> and false on
  \<^verbatim>\<open>555-1234\<close>.
\<close>

theorem Phone_examples: "Phone ''(555) 123-4567'' \<and> \<not> Phone ''555-1234''"
  by code_simp

subsection \<open>The coordinates pattern\<close>

text \<open>
  C4: the coordinates predicate returns true exactly when the value is two signed decimal
  numbers (an optional minus sign, one or more digits, and an optional fraction of a
  period and one or more digits) with a comma between them, which is then the only comma
  of the value; the numbers are not bounded. It is true on
  \<^verbatim>\<open>40.7128,-74.0060\<close> and on \<^verbatim>\<open>200,40\<close>, and false on
  \<^verbatim>\<open>abc,def\<close>.
\<close>

theorem Coordinates_iff:
  "(Coordinates w \<longleftrightarrow>
     (\<exists>s1 i1 f1 s2 i2 f2.
        w = s1 @ i1 @ f1 @ '','' @ s2 @ i2 @ f2 \<and>
        opt_char CHR ''-'' s1 \<and> digits1 i1 \<and> opt_fraction f1 \<and>
        opt_char CHR ''-'' s2 \<and> digits1 i2 \<and> opt_fraction f2) \<and>
     count_list w CHR '','' = 1) \<and>
   Coordinates ''40.7128,-74.0060'' \<and> Coordinates ''200,40'' \<and> \<not> Coordinates ''abc,def''"
proof -
  have c: "Coordinates w \<longleftrightarrow> w \<in> lang validCoordinateRegex"
    by (simp add: Coordinates_def full_match_lang)
  have n: "count_list w CHR '','' = 1"
    if "w = s1 @ i1 @ f1 @ '','' @ s2 @ i2 @ f2" "opt_char CHR ''-'' s1" "digits1 i1"
      "opt_fraction f1" "opt_char CHR ''-'' s2" "digits1 i2" "opt_fraction f2"
    for s1 i1 f1 s2 i2 f2
    using that by (simp add: digits1_no_comma opt_char_no_comma opt_fraction_no_comma)
  have e1: "Coordinates ''40.7128,-74.0060''" by code_simp
  have e2: "Coordinates ''200,40''" by code_simp
  have e3: "\<not> Coordinates ''abc,def''" by code_simp
  show ?thesis
    unfolding c lang_validCoordinateRegex using n e1 e2 e3 by blast
qed


subsection \<open>The top-level operation\<close>

text \<open>
  C2: when the walker finds no violation, \<^verbatim>\<open>Struct\<close> returns nil, no error
  value at all. When it finds at least one, \<^verbatim>\<open>Struct\<close> returns a pointer to
  an aggregate on which \<^verbatim>\<open>HasErrors\<close> is true and whose
  \<^verbatim>\<open>Len\<close> is the number of distinct failing field paths, a field path
  being the name of the failure without its root segment.
\<close>

theorem Struct_nil_or_counted:
  "Struct (validate_Struct []) = Inr None \<and>
   (failures \<noteq> [] \<longrightarrow>
      (\<exists>e. Struct (validate_Struct failures) = Inr (Some (ValidationErrorsPtr e)) \<and>
           HasErrors e \<and> Len e = length (field_paths failures)))"
proof -
  have "Struct (validate_Struct []) = Inr None"
    by (simp add: Struct_def validate_Struct_def)
  moreover have "\<exists>e. Struct (validate_Struct failures) = Inr (Some (ValidationErrorsPtr e)) \<and>
           HasErrors e \<and> Len e = length (field_paths failures)" if "failures \<noteq> []"
    using that field_paths_not_Nil [OF that]
    by (simp add: Struct_def validate_Struct_def HasErrors_def Len_NewValidationErrors)
  ultimately show ?thesis by blast
qed

theorem Struct_nil_or_counted_witness:
  "[\<lparr>NameNamespace = ''User.phone'', Tag = ''phone''\<rparr>,
    \<lparr>NameNamespace = ''User.zone'', Tag = ''timezone''\<rparr>,
    \<lparr>NameNamespace = ''User.phone'', Tag = ''required''\<rparr>] \<noteq> [] \<and>
   (\<exists>e. Struct (validate_Struct
        [\<lparr>NameNamespace = ''User.phone'', Tag = ''phone''\<rparr>,
         \<lparr>NameNamespace = ''User.zone'', Tag = ''timezone''\<rparr>,
         \<lparr>NameNamespace = ''User.phone'', Tag = ''required''\<rparr>]) = Inr (Some (ValidationErrorsPtr e)) \<and>
      HasErrors e \<and> Len e = 2)"
proof -
  let ?fs = "[\<lparr>NameNamespace = ''User.phone'', Tag = ''phone''\<rparr>,
    \<lparr>NameNamespace = ''User.zone'', Tag = ''timezone''\<rparr>,
    \<lparr>NameNamespace = ''User.phone'', Tag = ''required''\<rparr>]"
  have n: "?fs \<noteq> []" by simp
  have p: "length (field_paths ?fs) = 2"
    by (simp add: field_paths_def trim_namespace_def Split_def)
  show ?thesis
    using Struct_nil_or_counted [of ?fs] n p by simp
qed



subsection \<open>The timezone predicate\<close>

text \<open>
  C9: the timezone predicate returns true on the empty string, whatever the zone
  database holds, since the lookup gives UTC and no error for the empty name.
\<close>

theorem Timezone_empty: "Timezone zoneinfo [] = True"
  by (simp add: Timezone_def LoadLocation_def)

subsection \<open>The methods of the aggregate\<close>

text \<open>
  C7: the map of every aggregate has an iteration order, and for each of them
  \<^verbatim>\<open>Error\<close> returns, when the aggregate has errors, the text
  \<^verbatim>\<open>Validation error on fields: \<close> followed by the keys in that order with
  a comma and a space between them; each key of the map is listed once, so the order is
  not empty and has \<^verbatim>\<open>Len\<close> entries. When the aggregate has no error it
  returns the empty string.
\<close>

theorem Error_lists_keys:
  "(\<exists>order. range_order (errors e) order) \<and>
   (range_order (errors e) order \<longrightarrow>
      (HasErrors e \<longleftrightarrow> order \<noteq> []) \<and>
      length order = Len e \<and>
      Error order e =
        (if HasErrors e then ''Validation error on fields: '' @ Join order '', '' else []))"
  using range_order_exists [of "errors e"] range_order_Len [of e order]
  by (auto simp: Error_def append_keys_eq HasErrors_def)

theorem Error_lists_keys_witness:
  "range_order (errors \<lparr>errors = Some (fmupd ''phone'' [''phone''] (fmupd ''zone'' [''timezone''] fmempty))\<rparr>)
     [''zone'', ''phone''] \<and>
   HasErrors \<lparr>errors = Some (fmupd ''phone'' [''phone''] (fmupd ''zone'' [''timezone''] fmempty))\<rparr> \<and>
   Len \<lparr>errors = Some (fmupd ''phone'' [''phone''] (fmupd ''zone'' [''timezone''] fmempty))\<rparr> = 2 \<and>
   Error [''zone'', ''phone'']
     \<lparr>errors = Some (fmupd ''phone'' [''phone''] (fmupd ''zone'' [''timezone''] fmempty))\<rparr> =
     ''Validation error on fields: zone, phone'' \<and>
   range_order (errors \<lparr>errors = None\<rparr>) [] \<and>
   Error [] \<lparr>errors = None\<rparr> = []"
proof -
  let ?e = "\<lparr>errors = Some (fmupd ''phone'' [''phone''] (fmupd ''zone'' [''timezone''] fmempty))\<rparr>"
  have r: "range_order (errors ?e) [''zone'', ''phone'']"
    by (auto simp: range_order_def)
  have z: "range_order (errors \<lparr>errors = None\<rparr>) []"
    by (simp add: range_order_def)
  show ?thesis
    using Error_lists_keys [of ?e "[''zone'', ''phone'']"] r
      Error_lists_keys [of "\<lparr>errors = None\<rparr>" "[]"] z
    by simp
qed

text \<open>
  C8: an aggregate built from the walker's output and changed by any sequence of
  \<^verbatim>\<open>AddError\<close> calls is reached without a panic and has a map in which no
  key holds an empty reason list. A key is in the map once however often it was written:
  \<^verbatim>\<open>Len\<close> is the number of distinct names among the paths of the construction
  and the fields of the calls. One more \<^verbatim>\<open>AddError\<close> appends the reason to
  the list of a present key and stores a one-element list at an absent key.
\<close>

theorem AddErrors_keeps_invariant:
  "\<exists>m. AddErrors (NewValidationErrors verrs) calls = Inr \<lparr>errors = Some m\<rparr> \<and>
       (\<forall>field. fmlookup m field \<noteq> Some []) \<and>
       Len \<lparr>errors = Some m\<rparr> = length (remdups (paths_of verrs @ map fst calls)) \<and>
       AddError \<lparr>errors = Some m\<rparr> field err =
         Inr \<lparr>errors = Some (fmupd field
           (case fmlookup m field of None \<Rightarrow> [err] | Some reasons \<Rightarrow> reasons @ [err]) m)\<rparr>"
proof -
  obtain m0 where m0: "NewValidationErrors verrs = \<lparr>errors = Some m0\<rparr>"
    "\<forall>field. fmlookup m0 field \<noteq> Some []" "fmdom m0 = fset_of_list (paths_of verrs)"
    using NewValidationErrors_non_nil by blast
  obtain m where m: "AddErrors \<lparr>errors = Some m0\<rparr> calls = Inr \<lparr>errors = Some m\<rparr>"
    "\<forall>field. fmlookup m field \<noteq> Some []"
    "fmdom m = fmdom m0 |\<union>| fset_of_list (map fst calls)"
    using AddErrors_non_nil [OF m0(2)] by blast
  have "fmdom m = fset_of_list (paths_of verrs @ map fst calls)"
    unfolding m(3) m0(3) by simp
  then have "Len \<lparr>errors = Some m\<rparr> = length (remdups (paths_of verrs @ map fst calls))"
    unfolding Len_def by (simp only: fcard_fset_of_list option.case ValidationErrors.simps)
  then show ?thesis
    using m(1) m(2) m0(1) AddError_non_nil [of m field err] by auto
qed

subsection \<open>Serialization of the aggregate\<close>

text \<open>
  C6, as the code has it: an aggregate with a nil map, the zero value of the struct, is
  serialized as \<^verbatim>\<open>null\<close>, and reading that back gives the nil map. An
  aggregate with a map whose keys and reasons are all well-formed UTF-8 is serialized,
  with no error, as an object whose members have distinct keys and are exactly the pairs
  of a key of the map and the array of the strings of its reason list; reading the
  document back gives the map of the aggregate.
\<close>

theorem MarshalJSON_mirrors_mapping:
  "(errors e = None \<longrightarrow>
      MarshalJSON e = (JNull, None) \<and>
      json_Unmarshal (fst (MarshalJSON e)) = Some (errors e)) \<and>
   (errors e = Some m \<and> strings_valid m \<longrightarrow>
      (\<exists>members. MarshalJSON e = (JObject members, None) \<and> distinct (map fst members) \<and>
         (\<forall>k v. (k, v) \<in> set members \<longleftrightarrow>
            (\<exists>reasons. fmlookup m k = Some reasons \<and> v = JArray (map JString reasons)))) \<and>
      json_Unmarshal (fst (MarshalJSON e)) = Some (errors e))"
proof -
  have "MarshalJSON e = (JNull, None) \<and> json_Unmarshal (fst (MarshalJSON e)) = Some (errors e)"
    if "errors e = None"
    using that by (simp add: MarshalJSON_def json_Marshal_def)
  moreover have "(\<exists>members. MarshalJSON e = (JObject members, None) \<and> distinct (map fst members) \<and>
         (\<forall>k v. (k, v) \<in> set members \<longleftrightarrow>
            (\<exists>reasons. fmlookup m k = Some reasons \<and> v = JArray (map JString reasons)))) \<and>
      json_Unmarshal (fst (MarshalJSON e)) = Some (errors e)"
    if "errors e = Some m" "strings_valid m"
    using that json_Marshal_members [OF that(2)] json_roundtrip_valid [OF that(2)]
    by (simp add: MarshalJSON_def)
  ultimately show ?thesis by blast
qed

theorem MarshalJSON_mirrors_mapping_witness:
  "errors \<lparr>errors = None\<rparr> = None \<and> MarshalJSON \<lparr>errors = None\<rparr> = (JNull, None) \<and>
   errors \<lparr>errors = Some (fmupd ''phone'' [''phone''] (fmupd bullet [''timezone'', bullet] fmempty))\<rparr> =
     Some (fmupd ''phone'' [''phone''] (fmupd bullet [''timezone'', bullet] fmempty)) \<and>
   strings_valid (fmupd ''phone'' [''phone''] (fmupd bullet [''timezone'', bullet] fmempty)) \<and>
   (\<exists>members.
      MarshalJSON \<lparr>errors = Some (fmupd ''phone'' [''phone''] (fmupd bullet [''timezone'', bullet] fmempty))\<rparr> =
        (JObject members, None) \<and>
      (''phone'', JArray [JString ''phone'']) \<in> set members \<and>
      (bullet, JArray [JString ''timezone'', JString bullet]) \<in> set members \<and>
      (bullet, JArray [JString ''phone'']) \<notin> set members) \<and>
   json_Unmarshal (fst (MarshalJSON
      \<lparr>errors = Some (fmupd ''phone'' [''phone''] (fmupd bullet [''timezone'', bullet] fmempty))\<rparr>)) =
     Some (Some (fmupd ''phone'' [''phone''] (fmupd bullet [''timezone'', bullet] fmempty)))"
proof -
  let ?m = "fmupd ''phone'' [''phone''] (fmupd bullet [''timezone'', bullet] fmempty)"
  let ?e = "\<lparr>errors = Some ?m\<rparr>"
  have z: "errors \<lparr>errors = None\<rparr> = None" by simp
  have s: "errors ?e = Some ?m" by simp
  have v: "valid_utf8 ''phone''" "valid_utf8 ''timezone''" "valid_utf8 bullet"
    by code_simp+
  have sv: "strings_valid ?m"
    unfolding strings_valid_def list_all_iff using v by auto
  from MarshalJSON_mirrors_mapping [of "\<lparr>errors = None\<rparr>" ?m] z
  have 1: "MarshalJSON \<lparr>errors = None\<rparr> = (JNull, None)" by blast
  from MarshalJSON_mirrors_mapping [of ?e ?m] s sv
  obtain members where m: "MarshalJSON ?e = (JObject members, None)"
    "\<forall>k v. (k, v) \<in> set members \<longleftrightarrow>
        (\<exists>reasons. fmlookup ?m k = Some reasons \<and> v = JArray (map JString reasons))"
    and u: "json_Unmarshal (fst (MarshalJSON ?e)) = Some (errors ?e)"
    by blast
  have b: "bullet \<noteq> ''phone''" by (simp add: bullet_def)
  have "(''phone'', JArray [JString ''phone'']) \<in> set members"
    "(bullet, JArray [JString ''timezone'', JString bullet]) \<in> set members"
    "(bullet, JArray [JString ''phone'']) \<notin> set members"
    using b by (simp_all add: m(2))
  with m(1) have "\<exists>members. MarshalJSON ?e = (JObject members, None) \<and>
      (''phone'', JArray [JString ''phone'']) \<in> set members \<and>
      (bullet, JArray [JString ''timezone'', JString bullet]) \<in> set members \<and>
      (bullet, JArray [JString ''phone'']) \<notin> set members"
    by blast
  with 1 u sv show ?thesis by simp
qed

text \<open>
  Against C6 as stated: the zero value of the aggregate is not serialized as an object;
  and the aggregate that two \<^verbatim>\<open>AddError\<close> calls with the one-byte fields FF and
  FE build has two keys, is serialized as an object with the key U+FFFD twice, and is
  read back as a map with one key.
\<close>

theorem MarshalJSON_not_mirrored:
  "MarshalJSON \<lparr>errors = None\<rparr> = (JNull, None) \<and>
   AddErrors (NewValidationErrors None) [([CHR 0xFF], ''a''), ([CHR 0xFE], ''b'')] =
     Inr \<lparr>errors = Some (fmupd [CHR 0xFE] [''b''] (fmupd [CHR 0xFF] [''a''] fmempty))\<rparr> \<and>
   Len \<lparr>errors = Some (fmupd [CHR 0xFE] [''b''] (fmupd [CHR 0xFF] [''a''] fmempty))\<rparr> = 2 \<and>
   MarshalJSON \<lparr>errors = Some (fmupd [CHR 0xFE] [''b''] (fmupd [CHR 0xFF] [''a''] fmempty))\<rparr> =
     (JObject [([CHR 0xEF, CHR 0xBF, CHR 0xBD], JArray [JString ''b'']),
               ([CHR 0xEF, CHR 0xBF, CHR 0xBD], JArray [JString ''a''])], None) \<and>
   json_Unmarshal (JObject [([CHR 0xEF, CHR 0xBF, CHR 0xBD], JArray [JString ''b'']),
               ([CHR 0xEF, CHR 0xBF, CHR 0xBD], JArray [JString ''a''])]) =
     Some (Some (fmupd [CHR 0xEF, CHR 0xBF, CHR 0xBD] [''a'']
       (fmupd [CHR 0xEF, CHR 0xBF, CHR 0xBD] [''b''] fmempty))) \<and>
   Len \<lparr>errors = Some (fmupd [CHR 0xEF, CHR 0xBF, CHR 0xBD] [''a'']
       (fmupd [CHR 0xEF, CHR 0xBF, CHR 0xBD] [''b''] fmempty))\<rparr> = 1"
proof -
  have "MarshalJSON \<lparr>errors = None\<rparr> = (JNull, None)"
    by (simp add: MarshalJSON_def json_Marshal_def)
  moreover have "AddErrors (NewValidationErrors None) [([CHR 0xFF], ''a''), ([CHR 0xFE], ''b'')] =
     Inr \<lparr>errors = Some (fmupd [CHR 0xFE] [''b''] (fmupd [CHR 0xFF] [''a''] fmempty))\<rparr>"
    by (simp add: NewValidationErrors_def AddError_def)
  moreover have "Len \<lparr>errors = Some (fmupd [CHR 0xFE] [''b''] (fmupd [CHR 0xFF] [''a''] fmempty))\<rparr> = 2"
    by (simp add: Len_def fcard_finsert_if)
  moreover have "MarshalJSON \<lparr>errors = Some (fmupd [CHR 0xFE] [''b''] (fmupd [CHR 0xFF] [''a''] fmempty))\<rparr> =
     (JObject [([CHR 0xEF, CHR 0xBF, CHR 0xBD], JArray [JString ''b'']),
               ([CHR 0xEF, CHR 0xBF, CHR 0xBD], JArray [JString ''a''])], None)"
    by code_simp
  moreover have "json_Unmarshal (JObject [([CHR 0xEF, CHR 0xBF, CHR 0xBD], JArray [JString ''b'']),
               ([CHR 0xEF, CHR 0xBF, CHR 0xBD], JArray [JString ''a''])]) =
     Some (Some (fmupd [CHR 0xEF, CHR 0xBF, CHR 0xBD] [''a'']
       (fmupd [CHR 0xEF, CHR 0xBF, CHR 0xBD] [''b''] fmempty)))"
    by simp
  moreover have "Len \<lparr>errors = Some (fmupd [CHR 0xEF, CHR 0xBF, CHR 0xBD] [''a'']
       (fmupd [CHR 0xEF, CHR 0xBF, CHR 0xBD] [''b''] fmempty))\<rparr> = 1"
    by (simp add: Len_def fcard_finsert_if)
  ultimately show ?thesis by blast
qed

end
